theory Spec2Isabelle
  imports Main "HOL-Library.Word" "HOL-Library.Sublist"
begin

section \<open>Bytes and the two magics\<close>

text \<open>
  Python's \<open>bytes\<close> is a list of 8-bit values. The wrapper magic is \<open>b'TBX\\x00'\<close>,
  the payload magic is \<open>b'DDS '\<close>.
\<close>

type_synonym byte = "8 word"
type_synonym bytes = "byte list"

definition TBX :: bytes where
  "TBX = [0x54, 0x42, 0x58, 0x00]"

definition DDS :: bytes where
  "DDS = [0x44, 0x44, 0x53, 0x20]"

text \<open>
  \<open>data.find(pat)\<close>: the lowest index at which \<open>pat\<close> occurs in \<open>data\<close>; Python's \<open>-1\<close> is
  \<open>None\<close>.
\<close>

fun bytes_find :: "bytes \<Rightarrow> bytes \<Rightarrow> nat option" where
  "bytes_find [] pat = (if pat = [] then Some 0 else None)"
| "bytes_find (x # xs) pat =
     (if prefix pat (x # xs) then Some 0 else map_option Suc (bytes_find xs pat))"

text \<open>
  \<open>struct.unpack('<I', b)[0]\<close>: the little-endian value of the bytes. Both call sites slice
  four bytes out of data already checked to hold at least 16, so the unpack cannot raise.
\<close>

fun unpack_u32 :: "bytes \<Rightarrow> nat" where
  "unpack_u32 [] = 0"
| "unpack_u32 (b # bs) = unat b + 256 * unpack_u32 bs"

section \<open>Locating the header: \<open>parse_xbt_header\<close>\<close>

text \<open>
  The three \<open>raise ValueError\<close> sites of \<open>parse_xbt_header\<close>, in the order the code reaches
  them. The enclosing \<open>except\<close> re-raises each as a \<open>ValueError\<close> with a prefixed message,
  which keeps the cause.
\<close>

datatype parse_error = FileTooSmall | InvalidSignature | PayloadNotFound

definition parse_xbt_header :: "bytes \<Rightarrow> parse_error + (nat \<times> nat \<times> bytes)" where
  "parse_xbt_header data =
     (if length data < 16 then Inl FileTooSmall
      else if take 4 data \<noteq> TBX then Inl InvalidSignature
      else
        let header_size = unpack_u32 (take 4 (drop 8 data)) in
        case bytes_find data DDS of
          None \<Rightarrow> Inl PayloadNotFound
        | Some dds_start \<Rightarrow> Inr (header_size, dds_start, take dds_start data))"

section \<open>Text: hex, decimal, white space\<close>

text \<open>\<open>bytes.hex()\<close>: two lower-case hexadecimal digits for each byte.\<close>

definition hexdigit :: "nat \<Rightarrow> char" where
  "hexdigit n = ''0123456789abcdef'' ! n"

fun hex :: "bytes \<Rightarrow> string" where
  "hex [] = []"
| "hex (b # bs) = hexdigit (unat b div 16) # hexdigit (unat b mod 16) # hex bs"

text \<open>
  \<open>bytes.fromhex(s)\<close> (CPython 3.7 and later; the source needs 3.7 for
  \<open>subprocess.run(capture_output=...)\<close>): ASCII white space is skipped before each pair of
  digits, a pair is two hexadecimal digits of either case with nothing between them, and
  anything else raises \<open>ValueError\<close>, here \<open>None\<close>.
\<close>

definition digit_value :: "char \<Rightarrow> nat option" where
  "digit_value c =
     (let n = (of_char c :: nat) in
      if 48 \<le> n \<and> n \<le> 57 then Some (n - 48)
      else if 97 \<le> n \<and> n \<le> 102 then Some (n - 87)
      else if 65 \<le> n \<and> n \<le> 70 then Some (n - 55)
      else None)"

definition ascii_space :: "char \<Rightarrow> bool" where
  "ascii_space c = (let n = (of_char c :: nat) in (9 \<le> n \<and> n \<le> 13) \<or> n = 32)"

fun fromhex :: "string \<Rightarrow> bytes option" where
  "fromhex [] = Some []"
| "fromhex [c] = (if ascii_space c then Some [] else None)"
| "fromhex (c # d # cs) =
     (if ascii_space c then fromhex (d # cs)
      else case (digit_value c, digit_value d) of
             (Some h, Some l) \<Rightarrow> map_option ((#) (of_nat (16 * h + l))) (fromhex cs)
           | _ \<Rightarrow> None)"

text \<open>
  \<open>str.strip()\<close> removes the characters for which \<open>str.isspace\<close> holds from both ends. The
  model's characters are the first 256 code points; among them these are the white space.
\<close>

definition isspace :: "char \<Rightarrow> bool" where
  "isspace c =
     (let n = (of_char c :: nat) in
      (9 \<le> n \<and> n \<le> 13) \<or> (28 \<le> n \<and> n \<le> 32) \<or> n = 133 \<or> n = 160)"

definition strip :: "string \<Rightarrow> string" where
  "strip s = rev (dropWhile isspace (rev (dropWhile isspace s)))"

text \<open>\<open>str(n)\<close> for a non-negative integer: its decimal digits.\<close>

fun str_nat :: "nat \<Rightarrow> string" where
  "str_nat n =
     (if n < 10 then [char_of (48 + n)]
      else str_nat (n div 10) @ [char_of (48 + n mod 10)])"

declare str_nat.simps [simp del]

text \<open>\<open>b.decode('ascii', errors='ignore')\<close>: the bytes below 128, the others dropped.\<close>

definition decode_ascii_ignore :: "bytes \<Rightarrow> string" where
  "decode_ascii_ignore bs = map (\<lambda>b. char_of (unat b)) (filter (\<lambda>b. b < 128) bs)"

section \<open>Paths\<close>

text \<open>
  \<open>os.path.basename\<close>, \<open>os.path.join\<close> and \<open>os.path.splitext\<close> in their POSIX form
  (\<open>posixpath\<close>): the separator is \<open>/\<close>, the extension starts at the last dot of the last
  component, leading dots of that component not counted.
\<close>

type_synonym path = string

definition basename :: "path \<Rightarrow> path" where
  "basename p = rev (takeWhile (\<lambda>c. c \<noteq> CHR ''/'') (rev p))"

definition os_path_join :: "path \<Rightarrow> path \<Rightarrow> path" where
  "os_path_join a b =
     (if b \<noteq> [] \<and> hd b = CHR ''/'' then b
      else if a = [] \<or> last a = CHR ''/'' then a @ b
      else a @ ''/'' @ b)"

definition splitext :: "path \<Rightarrow> path \<times> string" where
  "splitext p =
     (if CHR ''.'' \<in> set (dropWhile (\<lambda>c. c = CHR ''.'') (basename p))
      then (let ext = CHR ''.'' # rev (takeWhile (\<lambda>c. c \<noteq> CHR ''.'') (rev p))
            in (take (length p - length ext) p, ext))
      else (p, []))"

text \<open>\<open>os.path.splitext(p)[0] + ".xml"\<close>: where the sidecar of \<open>p\<close> lives.\<close>

definition sidecar_path :: "path \<Rightarrow> path" where
  "sidecar_path p = fst (splitext p) @ ''.xml''"

section \<open>The sidecar document\<close>

text \<open>
  An \<open>xml.etree.ElementTree\<close> element: its tag, its text (\<open>None\<close> when it has none) and its
  children in document order. Attributes and tails are never written or read by the source.
\<close>

datatype element = Element (elem_tag: string) (elem_text: "string option") (elem_children: "element list")

text \<open>\<open>ET.SubElement(parent, name).text = t\<close> makes this child.\<close>

definition sub_element :: "string \<Rightarrow> string \<Rightarrow> element" where
  "sub_element name t = Element name (Some t) []"

text \<open>\<open>e.find(name)\<close> with a plain tag name: the first direct child with that tag.\<close>

definition find_child :: "element \<Rightarrow> string \<Rightarrow> element option" where
  "find_child e name = List.find (\<lambda>c. elem_tag c = name) (elem_children e)"

text \<open>
  The embedded path of \<open>save_header_to_xml\<close>: present when the header is longer than 28 bytes,
  a NUL is found after at least one byte from offset 28 on, and the decoded run is not all
  white space.
\<close>

definition embedded_path :: "bytes \<Rightarrow> string option" where
  "embedded_path header_data =
     (if length header_data > 28 then
        let path_data = drop 28 header_data in
        case bytes_find path_data [0] of
          None \<Rightarrow> None
        | Some null_pos \<Rightarrow>
            if null_pos > 0 then
              let p = decode_ascii_ignore (take null_pos path_data)
              in if strip p \<noteq> [] then Some p else None
            else None
      else None)"

definition metadata_fields :: "bytes \<Rightarrow> element list" where
  "metadata_fields header_data =
     [sub_element ''HeaderSize'' (str_nat (length header_data)),
      sub_element ''CreatedBy'' ''XBT-DDS Converter''] @
     (if length header_data \<ge> 16 then
        [sub_element ''Signature'' (hex (take 4 header_data)),
         sub_element ''Unknown1'' (str_nat (unpack_u32 (take 4 (drop 4 header_data)))),
         sub_element ''StoredHeaderSize'' (str_nat (unpack_u32 (take 4 (drop 8 header_data)))),
         sub_element ''Unknown2'' (str_nat (unpack_u32 (take 4 (drop 12 header_data))))] @
        (if length header_data \<ge> 28
         then [sub_element ''HashBytes'' (hex (take 12 (drop 16 header_data)))] else []) @
        (case embedded_path header_data of
           Some p \<Rightarrow> [sub_element ''EmbeddedPath'' p]
         | None \<Rightarrow> [])
      else [])"

definition header_xml :: "bytes \<Rightarrow> element" where
  "header_xml header_data =
     Element ''XBTHeader'' None
       [Element ''Metadata'' None (metadata_fields header_data),
        sub_element ''RawHeaderData'' (hex header_data)]"

text \<open>
  \<open>ET.tostring\<close> escapes the ampersand and the two angle brackets and writes every other
  character of a text as it is; \<open>minidom.parseString\<close> then parses that string and raises
  \<open>ExpatError\<close> on a character outside XML 1.0's \<open>Char\<close> production: below 32 only tab,
  line feed and carriage return are characters of XML. \<open>xml_ok\<close> says that every text of the
  tree passes.
\<close>

definition xml_char :: "char \<Rightarrow> bool" where
  "xml_char c = (let n = (of_char c :: nat) in n = 9 \<or> n = 10 \<or> n = 13 \<or> 32 \<le> n)"

fun xml_ok :: "element \<Rightarrow> bool" where
  "xml_ok (Element t x cs) =
     ((case x of None \<Rightarrow> True | Some s \<Rightarrow> list_all xml_char s) \<and> list_all xml_ok cs)"

section \<open>Files\<close>

text \<open>
  A file is a binary blob or an XML document. For a document the model keeps the element
  tree that \<open>ET.parse\<close> returns rather than its text: the text is the XML library's business
  on both sides. Read as bytes a document is XML text, which starts with neither magic, so
  every binary reader of the source rejects it; parsed as XML a blob raises \<open>ParseError\<close>.
  The disk maps a path to the file there. A write to it succeeds: the faults of the storage
  layer are not part of the model.
\<close>

datatype file_data = Binary bytes | XmlDoc element

type_synonym fs = "path \<Rightarrow> file_data option"

text \<open>
  \<open>save_header_to_xml\<close> returns \<open>False\<close> (here \<open>None\<close>) when anything raises, which in the
  model is the reparse of the serialised tree; otherwise the document is on disk.
\<close>

definition save_header_to_xml :: "fs \<Rightarrow> bytes \<Rightarrow> path \<Rightarrow> fs option" where
  "save_header_to_xml disk header_data xml_path =
     (let root = header_xml header_data in
      if xml_ok root then Some (disk(xml_path \<mapsto> XmlDoc root)) else None)"

text \<open>
  The causes for which \<open>load_header_from_xml\<close> raises, in the order of the code. The
  metadata block is only looked up for logging afterwards (\<open>find\<close> on an element cannot
  raise), so it has no branch here.
\<close>

datatype load_error = XmlNotFound | XmlParseError | InvalidFormat | MissingRawHeader | MalformedHex

definition read_header :: "element \<Rightarrow> load_error + bytes" where
  "read_header root =
     (if elem_tag root \<noteq> ''XBTHeader'' then Inl InvalidFormat
      else case find_child root ''RawHeaderData'' of
             None \<Rightarrow> Inl MissingRawHeader
           | Some raw_data_elem \<Rightarrow>
               (case elem_text raw_data_elem of
                  None \<Rightarrow> Inl MissingRawHeader
                | Some t \<Rightarrow>
                    if t = [] then Inl MissingRawHeader
                    else case fromhex (strip t) of
                           None \<Rightarrow> Inl MalformedHex
                         | Some header_data \<Rightarrow> Inr header_data))"

definition load_header_result :: "fs \<Rightarrow> path \<Rightarrow> load_error + bytes" where
  "load_header_result disk xml_path =
     (case disk xml_path of
        None \<Rightarrow> Inl XmlNotFound
      | Some (Binary _) \<Rightarrow> Inl XmlParseError
      | Some (XmlDoc root) \<Rightarrow> read_header root)"

text \<open>The \<open>except\<close> of \<open>load_header_from_xml\<close> logs the cause and returns \<open>None\<close>.\<close>

definition load_header_from_xml :: "fs \<Rightarrow> path \<Rightarrow> bytes option" where
  "load_header_from_xml disk xml_path =
     (case load_header_result disk xml_path of Inl _ \<Rightarrow> None | Inr header_data \<Rightarrow> Some header_data)"

section \<open>Split and join of one file\<close>

text \<open>
  Why a conversion returns \<open>False\<close>: the input cannot be opened; the input is XML text, on
  which \<open>parse_xbt_header\<close> raises; \<open>parse_xbt_header\<close> raises on the bytes read;
  \<open>save_header_to_xml\<close> returned \<open>False\<close>; the payload does not start with its magic; no
  header came back from the sidecar. Both conversions catch every exception, log it and
  return \<open>False\<close>, here \<open>Inl\<close> with the cause; \<open>Inr\<close> is \<open>True\<close> with the disk as written.
\<close>

datatype conv_error =
    OpenFailed
  | XmlTextInput
  | ParseFailed parse_error
  | SaveXmlFailed
  | InvalidPayloadSignature
  | LoadHeaderFailed

definition xbt_to_dds_batch :: "fs \<Rightarrow> path \<Rightarrow> path \<Rightarrow> path \<Rightarrow> conv_error + fs" where
  "xbt_to_dds_batch disk input_path output_path xml_output_path =
     (case disk input_path of
        None \<Rightarrow> Inl OpenFailed
      | Some (XmlDoc _) \<Rightarrow> Inl XmlTextInput
      | Some (Binary data) \<Rightarrow>
          (case parse_xbt_header data of
             Inl e \<Rightarrow> Inl (ParseFailed e)
           | Inr (header_size, dds_start, header_data) \<Rightarrow>
               (case save_header_to_xml disk header_data xml_output_path of
                  None \<Rightarrow> Inl SaveXmlFailed
                | Some disk' \<Rightarrow> Inr (disk'(output_path \<mapsto> Binary (drop dds_start data))))))"

text \<open>\<open>xbt_to_dds\<close> is the same code with the sidecar placed beside the output.\<close>

definition xbt_to_dds :: "fs \<Rightarrow> path \<Rightarrow> path \<Rightarrow> conv_error + fs" where
  "xbt_to_dds disk input_path output_path =
     xbt_to_dds_batch disk input_path output_path (sidecar_path output_path)"

text \<open>
  The optional format fixing before a join: \<open>None\<close> when \<open>fix_dds_format\<close> is off; otherwise
  the external tool (texconv, or the PIL fallback) as a function from the file's bytes to
  the fixed file's bytes, \<open>None\<close> when it fails and the original file is used.
\<close>

type_synonym fixer = "(bytes \<Rightarrow> bytes option) option"

definition dds_input :: "fixer \<Rightarrow> bytes \<Rightarrow> bytes" where
  "dds_input fix d =
     (case fix of
        None \<Rightarrow> d
      | Some tool \<Rightarrow> (case tool d of None \<Rightarrow> d | Some fixed \<Rightarrow> fixed))"

definition dds_to_xbt :: "fixer \<Rightarrow> fs \<Rightarrow> path \<Rightarrow> path \<Rightarrow> conv_error + fs" where
  "dds_to_xbt fix disk input_path output_path =
     (case disk input_path of
        None \<Rightarrow> Inl OpenFailed
      | Some (XmlDoc _) \<Rightarrow> Inl InvalidPayloadSignature
      | Some (Binary d) \<Rightarrow>
          let dds_data = dds_input fix d in
          if \<not> prefix DDS dds_data then Inl InvalidPayloadSignature
          else case load_header_from_xml disk (sidecar_path input_path) of
                 None \<Rightarrow> Inl LoadHeaderFailed
               | Some header_data \<Rightarrow>
                   if header_data = [] then Inl LoadHeaderFailed
                   else Inr (disk(output_path \<mapsto> Binary (header_data @ dds_data))))"

section \<open>The batch run\<close>

text \<open>
  The direction radio buttons set \<open>conversion_type\<close> to \<open>"auto"\<close>, \<open>"xbt_to_dds"\<close> or
  \<open>"dds_to_xbt"\<close>; \<open>overwrite_existing\<close> and \<open>fix_dds_format\<close> are the two check boxes.
\<close>

datatype direction = XbtToDds | DdsToXbt

datatype conversion = Auto | Fixed direction

record config =
  conversion_type :: conversion
  overwrite_existing :: bool
  fix_dds_format :: fixer

datatype file_type = Xbt | Dds | Unknown

text \<open>
  \<open>detect_file_type\<close> compares the first four bytes with the magics; a file that cannot be
  opened is \<open>unknown\<close> (the \<open>except\<close>), and so is XML text.
\<close>

definition detect_file_type :: "fs \<Rightarrow> path \<Rightarrow> file_type" where
  "detect_file_type disk filepath =
     (case disk filepath of
        Some (Binary d) \<Rightarrow>
          (let header = take 4 d in
           if header = TBX then Xbt else if header = DDS then Dds else Unknown)
      | _ \<Rightarrow> Unknown)"

definition check_conversion_requirements :: "fs \<Rightarrow> path \<Rightarrow> direction \<Rightarrow> bool \<times> string" where
  "check_conversion_requirements disk input_path current_conversion =
     (if current_conversion = DdsToXbt then
        let xml_path = sidecar_path input_path in
        if disk xml_path = None
        then (False, ''Required XML header file not found: '' @ basename xml_path)
        else (True, [])
      else (True, []))"

subsection \<open>Staging\<close>

text \<open>
  \<open>shutil.copy2(src, dst)\<close> raises when the source is missing or is the destination
  itself; otherwise the destination holds the source's content.
\<close>

definition copy2 :: "fs \<Rightarrow> path \<Rightarrow> path \<Rightarrow> fs option" where
  "copy2 disk src dst =
     (case disk src of
        None \<Rightarrow> None
      | Some content \<Rightarrow> if src = dst then None else Some (disk(dst \<mapsto> content)))"

text \<open>
  One round of the copy loop of \<open>convert_batch\<close>. An exception is logged by the loop's
  \<open>except\<close> and the disk stays as it was.
\<close>

definition stage_file :: "bool \<Rightarrow> path \<Rightarrow> fs \<Rightarrow> path \<Rightarrow> fs" where
  "stage_file overwrite extract_dir disk xbt_file =
     (let filename = basename xbt_file;
          dest_path = os_path_join extract_dir filename
      in if disk dest_path = None \<or> overwrite
         then (case copy2 disk xbt_file dest_path of None \<Rightarrow> disk | Some disk' \<Rightarrow> disk')
         else disk)"

definition stage_files :: "bool \<Rightarrow> path \<Rightarrow> fs \<Rightarrow> path list \<Rightarrow> fs" where
  "stage_files overwrite extract_dir disk xbt_files =
     foldl (stage_file overwrite extract_dir) disk xbt_files"

subsection \<open>Converting\<close>

datatype skip_reason = UnknownFileType | RequirementsNotMet string | OutputExists

datatype outcome = Converted | Skipped skip_reason | Failed conv_error

text \<open>
  The body of the convert loop for one file, up to the counting: the direction, the
  requirements, the output path in the flat output directory, the existing-output policy
  and the conversion itself. With the progress window and the log widget taken to return
  normally, nothing in this body raises past the conversions' own handlers.
\<close>

definition current_conversion :: "conversion \<Rightarrow> fs \<Rightarrow> path \<Rightarrow> direction option" where
  "current_conversion ct disk input_path =
     (case ct of
        Auto \<Rightarrow>
          (case detect_file_type disk input_path of
             Xbt \<Rightarrow> Some XbtToDds
           | Dds \<Rightarrow> Some DdsToXbt
           | Unknown \<Rightarrow> None)
      | Fixed d \<Rightarrow> Some d)"

definition convert_one :: "config \<Rightarrow> path \<Rightarrow> fs \<Rightarrow> path \<Rightarrow> outcome \<times> fs" where
  "convert_one cfg convert_dir disk input_path =
     (case current_conversion (conversion_type cfg) disk input_path of
        None \<Rightarrow> (Skipped UnknownFileType, disk)
      | Some current \<Rightarrow>
          (case check_conversion_requirements disk input_path current of
             (False, error_msg) \<Rightarrow> (Skipped (RequirementsNotMet error_msg), disk)
           | (True, _) \<Rightarrow>
               let input_filename = basename input_path;
                   base_name = fst (splitext input_filename);
                   output_path = os_path_join convert_dir
                     (base_name @ (if current = XbtToDds then ''.dds'' else ''.xbt''));
                   xml_output_path = os_path_join convert_dir (base_name @ ''.xml'')
               in if disk output_path \<noteq> None \<and> \<not> overwrite_existing cfg
                  then (Skipped OutputExists, disk)
                  else case (if current = XbtToDds
                             then xbt_to_dds_batch disk input_path output_path xml_output_path
                             else dds_to_xbt (fix_dds_format cfg) disk input_path output_path) of
                         Inl e \<Rightarrow> (Failed e, disk)
                       | Inr disk' \<Rightarrow> (Converted, disk')))"

text \<open>The state of the convert loop: the disk, the three counters, and what was logged.\<close>

record run =
  run_disk :: fs
  converted :: nat
  skipped :: nat
  errors :: nat
  run_log :: "(path \<times> outcome) list"

definition process_file :: "config \<Rightarrow> path \<Rightarrow> run \<Rightarrow> path \<Rightarrow> run" where
  "process_file cfg convert_dir st input_path =
     (case convert_one cfg convert_dir (run_disk st) input_path of
        (Converted, disk') \<Rightarrow>
          st\<lparr>run_disk := disk', converted := converted st + 1,
             run_log := run_log st @ [(input_path, Converted)]\<rparr>
      | (Skipped r, disk') \<Rightarrow>
          st\<lparr>run_disk := disk', skipped := skipped st + 1,
             run_log := run_log st @ [(input_path, Skipped r)]\<rparr>
      | (Failed e, disk') \<Rightarrow>
          st\<lparr>run_disk := disk', errors := errors st + 1,
             run_log := run_log st @ [(input_path, Failed e)]\<rparr>)"

definition convert_files :: "config \<Rightarrow> path \<Rightarrow> run \<Rightarrow> path list \<Rightarrow> run" where
  "convert_files cfg convert_dir st files_to_convert =
     foldl (process_file cfg convert_dir) st files_to_convert"

subsection \<open>\<open>convert_batch\<close>\<close>

text \<open>
  \<open>s.lower().endswith(ext)\<close> on the model's characters: the capital letters of the first
  256 code points are lowered by adding 32.
\<close>

definition lower_char :: "char \<Rightarrow> char" where
  "lower_char c =
     (let n = (of_char c :: nat) in
      if (65 \<le> n \<and> n \<le> 90) \<or> (192 \<le> n \<and> n \<le> 222 \<and> n \<noteq> 215) then char_of (n + 32) else c)"

definition has_extension :: "string \<Rightarrow> path \<Rightarrow> bool" where
  "has_extension ext f = suffix ext (map lower_char f)"

text \<open>
  \<open>convert_batch\<close> from the sorted list \<open>files\<close> that the directory walk found. \<open>None\<close> is
  the early \<open>return False\<close> when nothing was found; otherwise the run's final state, from
  which the summary is printed and \<open>errors == 0\<close> returned.
\<close>

definition convert_batch :: "config \<Rightarrow> path \<Rightarrow> fs \<Rightarrow> path list \<Rightarrow> run option" where
  "convert_batch cfg converter_root disk files =
     (if files = [] then None
      else
        let xbt_files = filter (has_extension ''.xbt'') files;
            dds_files = filter (has_extension ''.dds'') files;
            extract_dir = os_path_join converter_root ''extracted_xbt_files'';
            convert_dir = os_path_join converter_root ''converted_dds_files'';
            disk1 = stage_files (overwrite_existing cfg) extract_dir disk xbt_files;
            files_to_convert =
              (if conversion_type cfg \<in> {Auto, Fixed XbtToDds}
               then map (\<lambda>f. os_path_join extract_dir (basename f)) xbt_files else []) @
              (if conversion_type cfg \<in> {Auto, Fixed DdsToXbt} then dds_files else [])
        in if files_to_convert = [] then None
           else Some (convert_files cfg convert_dir
                  \<lparr>run_disk = disk1, converted = 0, skipped = 0, errors = 0, run_log = []\<rparr>
                  files_to_convert))"

text \<open>\<open>occurs pat data i\<close>: the pattern \<open>pat\<close> occurs in \<open>data\<close> at index \<open>i\<close>.\<close>

definition occurs :: "bytes \<Rightarrow> bytes \<Rightarrow> nat \<Rightarrow> bool" where
  "occurs pat data i = prefix pat (drop i data)"

section \<open>Facts about the search\<close>

lemma occurs_0: "occurs pat data 0 = prefix pat data"
  by (simp add: occurs_def)

lemma occurs_Suc: "occurs pat (x # xs) (Suc i) = occurs pat xs i"
  by (simp add: occurs_def)

lemma bytes_find_Some:
  "bytes_find data pat = Some k \<Longrightarrow>
     k \<le> length data \<and> occurs pat data k \<and> (\<forall>j<k. \<not> occurs pat data j)"
proof (induction data arbitrary: k)
  case Nil
  then show ?case by (simp add: occurs_def split: if_splits)
next
  case (Cons x xs)
  show ?case
  proof (cases "prefix pat (x # xs)")
    case True
    with Cons.prems show ?thesis by (simp add: occurs_def)
  next
    case False
    with Cons.prems obtain k' where k': "bytes_find xs pat = Some k'" "k = Suc k'"
      by auto
    from Cons.IH [OF k'(1)]
    have ih: "k' \<le> length xs" "occurs pat xs k'" "\<forall>j<k'. \<not> occurs pat xs j"
      by auto
    have "\<not> occurs pat (x # xs) j" if "j < k" for j
    proof (cases j)
      case 0
      with False show ?thesis by (simp add: occurs_0)
    next
      case (Suc j')
      with that k'(2) ih(3) show ?thesis by (simp add: occurs_Suc)
    qed
    with ih k'(2) show ?thesis by (simp add: occurs_Suc)
  qed
qed

lemma bytes_find_None:
  "bytes_find data pat = None \<Longrightarrow> \<not> occurs pat data i"
proof (induction data arbitrary: i)
  case Nil
  then show ?case by (simp add: occurs_def split: if_splits)
next
  case (Cons x xs)
  from Cons.prems have np: "\<not> prefix pat (x # xs)" and rest: "bytes_find xs pat = None"
    by (auto split: if_splits)
  show ?case
  proof (cases i)
    case 0
    with np show ?thesis by (simp add: occurs_0)
  next
    case (Suc i')
    with Cons.IH [OF rest] show ?thesis by (simp add: occurs_Suc)
  qed
qed

lemma bytes_find_first:
  assumes "occurs pat data k" and "\<forall>j<k. \<not> occurs pat data j"
  shows "bytes_find data pat = Some k"
proof (cases "bytes_find data pat")
  case None
  with assms(1) show ?thesis using bytes_find_None by blast
next
  case (Some k')
  from bytes_find_Some [OF Some]
  have "occurs pat data k'" and "\<forall>j<k'. \<not> occurs pat data j" by auto
  with assms have "k' = k" by (meson linorder_neqE_nat)
  with Some show ?thesis by simp
qed

section \<open>Facts about the sidecar codec\<close>

lemma nat_less_16_cases:
  "n < 16 \<Longrightarrow> n \<in> {0, 1, 2, 3, 4, 5, 6, 7, 8, 9, 10, 11, 12, 13, 14, 15 :: nat}"
  by simp arith

lemma hexdigit_facts:
  assumes "n < 16"
  shows "digit_value (hexdigit n) = Some n"
    and "\<not> ascii_space (hexdigit n)"
    and "\<not> isspace (hexdigit n)"
    and "xml_char (hexdigit n)"
  using nat_less_16_cases [OF assms]
  by (auto simp: hexdigit_def digit_value_def ascii_space_def isspace_def xml_char_def)

lemma unat_byte_div_16: "unat (b :: byte) div 16 < 16"
proof -
  have "unat b < 256" using unsigned_less [of b] by simp
  then show ?thesis by simp
qed

lemma fromhex_hex: "fromhex (hex bs) = Some bs"
proof (induction bs)
  case Nil
  show ?case by simp
next
  case (Cons b bs)
  have hi: "unat b div 16 < 16" by (rule unat_byte_div_16)
  have lo: "unat b mod 16 < 16" by simp
  show ?case
    using Cons.IH by (simp add: hexdigit_facts [OF hi] hexdigit_facts [OF lo])
qed

lemma hex_no_space: "c \<in> set (hex bs) \<Longrightarrow> \<not> isspace c"
proof (induction bs)
  case Nil
  then show ?case by simp
next
  case (Cons b bs)
  have hi: "unat b div 16 < 16" by (rule unat_byte_div_16)
  have lo: "unat b mod 16 < 16" by simp
  from Cons show ?case
    using hexdigit_facts(3) [OF hi] hexdigit_facts(3) [OF lo] by auto
qed

lemma dropWhile_none: "(\<And>c. c \<in> set s \<Longrightarrow> \<not> P c) \<Longrightarrow> dropWhile P s = s"
  by (cases s) auto

lemma strip_no_space:
  assumes "\<And>c. c \<in> set s \<Longrightarrow> \<not> isspace c"
  shows "strip s = s"
proof -
  have "dropWhile isspace s = s"
    using assms by (rule dropWhile_none)
  moreover have "dropWhile isspace (rev s) = rev s"
    using assms by (intro dropWhile_none) simp
  ultimately show ?thesis by (simp add: strip_def)
qed

lemma strip_hex: "strip (hex bs) = hex bs"
  by (rule strip_no_space) (rule hex_no_space)

lemma hex_xml_char: "list_all xml_char (hex bs)"
proof (induction bs)
  case Nil
  show ?case by simp
next
  case (Cons b bs)
  have hi: "unat b div 16 < 16" by (rule unat_byte_div_16)
  have lo: "unat b mod 16 < 16" by simp
  from Cons show ?case
    by (simp add: hexdigit_facts(4) [OF hi] hexdigit_facts(4) [OF lo])
qed

lemma hex_eq_Nil: "hex bs = [] \<longleftrightarrow> bs = []"
  by (cases bs) auto

lemma digit_xml_char: "d < 10 \<Longrightarrow> xml_char (char_of (48 + d :: nat))"
  by (simp add: xml_char_def)

lemma str_nat_xml_char: "list_all xml_char (str_nat n)"
proof (induction n rule: str_nat.induct)
  case (1 n)
  show ?case
  proof (cases "n < 10")
    case True
    then show ?thesis by (subst str_nat.simps) (simp add: digit_xml_char)
  next
    case False
    have "n mod 10 < 10" by simp
    with False 1 show ?thesis
      by (subst str_nat.simps) (simp add: digit_xml_char)
  qed
qed

lemma xml_ok_sub_element: "xml_ok (sub_element name t) = list_all xml_char t"
  by (simp add: sub_element_def)

lemma embedded_path_short: "length h \<le> 28 \<Longrightarrow> embedded_path h = None"
  by (simp add: embedded_path_def)

lemma xml_ok_header_xml:
  "xml_ok (header_xml h) =
     (case embedded_path h of None \<Rightarrow> True | Some p \<Rightarrow> list_all xml_char p)"
proof (cases "length h \<le> 28")
  case True
  then show ?thesis
    by (simp add: header_xml_def metadata_fields_def xml_ok_sub_element hex_xml_char
        str_nat_xml_char xml_char_def embedded_path_short)
next
  case False
  then show ?thesis
    by (simp add: header_xml_def metadata_fields_def xml_ok_sub_element hex_xml_char
        str_nat_xml_char xml_char_def split: option.split)
qed

lemma read_header_header_xml:
  "read_header (header_xml h) = (if h = [] then Inl MissingRawHeader else Inr h)"
  by (simp add: read_header_def header_xml_def find_child_def sub_element_def
      hex_eq_Nil strip_hex fromhex_hex)

section \<open>The header boundary\<close>

lemma prefix_DDS_short:
  assumes "\<not> prefix DDS r" and "prefix DDS p" and "r \<noteq> []"
  shows "\<not> prefix DDS (r @ p)"
proof -
  from assms(2) obtain q where p: "p = DDS @ q" by (auto simp: prefix_def)
  consider a where "r = [a]" | a b where "r = [a, b]" | a b c where "r = [a, b, c]"
    | a b c d t where "r = a # b # c # d # t"
    using assms(3) by (metis list.exhaust)
  then show ?thesis
  proof cases
    case 1
    then show ?thesis by (simp add: p DDS_def)
  next
    case 2
    then show ?thesis by (simp add: p DDS_def)
  next
    case 3
    then show ?thesis by (simp add: p DDS_def)
  next
    case 4
    with assms(1) show ?thesis by (simp add: DDS_def)
  qed
qed

lemma occurs_append_left:
  assumes "\<forall>i. \<not> occurs DDS h i" and "prefix DDS p" and "j < length h"
  shows "\<not> occurs DDS (h @ p) j"
proof -
  from assms(1) have "\<not> prefix DDS (drop j h)" by (simp add: occurs_def)
  moreover from assms(3) have "drop j h \<noteq> []" by simp
  ultimately have "\<not> prefix DDS (drop j h @ p)"
    using assms(2) by (intro prefix_DDS_short)
  with assms(3) show ?thesis by (simp add: occurs_def)
qed

lemma bytes_find_boundary:
  assumes "\<forall>i. \<not> occurs DDS h i" and "prefix DDS p"
  shows "bytes_find (h @ p) DDS = Some (length h)"
proof (rule bytes_find_first)
  show "occurs DDS (h @ p) (length h)" using assms(2) by (simp add: occurs_def)
  show "\<forall>j<length h. \<not> occurs DDS (h @ p) j"
    using occurs_append_left [OF assms] by blast
qed

lemma parse_xbt_header_Inr:
  assumes "parse_xbt_header data = Inr (hs, k, h)"
  shows "16 \<le> length data" and "take 4 data = TBX" and "bytes_find data DDS = Some k"
    and "h = take k data" and "hs = unpack_u32 (take 4 (drop 8 data))"
  using assms by (auto simp: parse_xbt_header_def Let_def split: if_splits option.splits)

lemma TBX_not_DDS_at:
  assumes "take 4 data = TBX" and "occurs DDS data k"
  shows "4 \<le> k"
proof (rule ccontr)
  assume "\<not> 4 \<le> k"
  then consider "k = 0" | "k = 1" | "k = 2" | "k = 3" by arith
  moreover have data: "data = TBX @ drop 4 data"
    using assms(1) append_take_drop_id [of 4 data] by simp
  ultimately show False
    using assms(2) by cases (subst (asm) data, simp add: occurs_def TBX_def DDS_def)+
qed

text \<open>
  Claim C6, as the code has it. \<open>parse_xbt_header\<close> has three failure modes, not two: an
  input shorter than 16 bytes fails as too small, whatever its content. From 16 bytes on,
  it fails on a wrong signature when the first four bytes are not the wrapper magic, fails
  for want of a payload when the magic is there and the payload magic occurs nowhere, and
  succeeds otherwise.
\<close>

theorem parse_xbt_header_failure_modes:
  "(length data < 16 \<longrightarrow> parse_xbt_header data = Inl FileTooSmall) \<and>
   (16 \<le> length data \<and> take 4 data \<noteq> TBX \<longrightarrow> parse_xbt_header data = Inl InvalidSignature) \<and>
   (16 \<le> length data \<and> take 4 data = TBX \<and> (\<forall>i. \<not> occurs DDS data i) \<longrightarrow>
      parse_xbt_header data = Inl PayloadNotFound) \<and>
   (16 \<le> length data \<and> take 4 data = TBX \<and> occurs DDS data i \<longrightarrow>
      (\<exists>k. parse_xbt_header data = Inr (unpack_u32 (take 4 (drop 8 data)), k, take k data)))"
proof (intro conjI impI)
  assume "length data < 16"
  then show "parse_xbt_header data = Inl FileTooSmall" by (simp add: parse_xbt_header_def)
next
  assume "16 \<le> length data \<and> take 4 data \<noteq> TBX"
  then show "parse_xbt_header data = Inl InvalidSignature" by (simp add: parse_xbt_header_def)
next
  assume a: "16 \<le> length data \<and> take 4 data = TBX \<and> (\<forall>i. \<not> occurs DDS data i)"
  have "bytes_find data DDS = None"
  proof (cases "bytes_find data DDS")
    case (Some k)
    from bytes_find_Some [OF Some] a show ?thesis by blast
  qed simp
  with a show "parse_xbt_header data = Inl PayloadNotFound" by (simp add: parse_xbt_header_def)
next
  assume a: "16 \<le> length data \<and> take 4 data = TBX \<and> occurs DDS data i"
  then obtain k where "bytes_find data DDS = Some k"
    using bytes_find_None by (cases "bytes_find data DDS") blast+
  with a show "\<exists>k. parse_xbt_header data = Inr (unpack_u32 (take 4 (drop 8 data)), k, take k data)"
    by (simp add: parse_xbt_header_def)
qed

text \<open>
  The boundary that \<open>parse_xbt_header\<close> finds. For a header that starts with the wrapper
  magic and does not contain the payload magic, followed by a payload that starts with it,
  the header returned is that header. In every case the header returned is the container
  up to the first occurrence of the payload magic.
\<close>

lemma parse_xbt_header_boundary:
  "(length h = N \<and> 16 \<le> N \<and> N \<le> 40 \<and> take 4 h = TBX \<and> (\<forall>i. \<not> occurs DDS h i) \<and> prefix DDS p \<longrightarrow>
      parse_xbt_header (h @ p) = Inr (unpack_u32 (take 4 (drop 8 h)), N, h)) \<and>
   (parse_xbt_header data = Inr (header_size, dds_start, header_data) \<longrightarrow>
      header_data = take dds_start data \<and> occurs DDS data dds_start \<and>
      (\<forall>j<dds_start. \<not> occurs DDS data j))"
proof (intro conjI impI)
  assume a: "length h = N \<and> 16 \<le> N \<and> N \<le> 40 \<and> take 4 h = TBX \<and> (\<forall>i. \<not> occurs DDS h i) \<and> prefix DDS p"
  then have find: "bytes_find (h @ p) DDS = Some N"
    using bytes_find_boundary [of h p] by simp
  from a have "take 4 (h @ p) = TBX" and "take 4 (drop 8 (h @ p)) = take 4 (drop 8 h)"
    by simp_all
  with a find show "parse_xbt_header (h @ p) = Inr (unpack_u32 (take 4 (drop 8 h)), N, h)"
    by (simp add: parse_xbt_header_def)
next
  assume a: "parse_xbt_header data = Inr (header_size, dds_start, header_data)"
  from parse_xbt_header_Inr(3) [OF a] have "bytes_find data DDS = Some dds_start" .
  from bytes_find_Some [OF this] parse_xbt_header_Inr(4) [OF a]
  show "header_data = take dds_start data" and "occurs DDS data dds_start"
    and "\<forall>j<dds_start. \<not> occurs DDS data j"
    by simp_all
qed

lemma no_DDS_in_zero_header: "\<not> occurs DDS (TBX @ replicate 12 0) i"
proof -
  have "bytes_find (TBX @ replicate 12 0) DDS = None"
    by code_simp
  then show ?thesis by (rule bytes_find_None)
qed

text \<open>
  Eight bytes, the wrapper magic and then the payload magic: both are there, and the parse
  fails on the length.
\<close>

theorem parse_xbt_header_failure_modes_counterexample:
  "take 4 (TBX @ DDS) = TBX \<and> occurs DDS (TBX @ DDS) 4 \<and>
   parse_xbt_header (TBX @ DDS) = Inl FileTooSmall"
  by (simp add: parse_xbt_header_def occurs_def TBX_def DDS_def)

text \<open>One input for each of the four cases.\<close>

theorem parse_xbt_header_failure_modes_witness:
  "parse_xbt_header (TBX @ DDS) = Inl FileTooSmall \<and>
   parse_xbt_header (replicate 16 0) = Inl InvalidSignature \<and>
   parse_xbt_header (TBX @ replicate 12 0) = Inl PayloadNotFound \<and>
   (\<exists>k. parse_xbt_header (TBX @ replicate 12 0 @ DDS) = Inr (0, k, take k (TBX @ replicate 12 0 @ DDS)))"
proof -
  have 1: "length (TBX @ DDS) < 16" by (simp add: TBX_def DDS_def)
  have 2: "16 \<le> length (replicate 16 (0::byte)) \<and> take 4 (replicate 16 (0::byte)) \<noteq> TBX"
    by code_simp
  have 3: "16 \<le> length (TBX @ replicate 12 0) \<and> take 4 (TBX @ replicate 12 0) = TBX \<and>
      (\<forall>i. \<not> occurs DDS (TBX @ replicate 12 0) i)"
    using no_DDS_in_zero_header by (simp add: TBX_def)
  have 4: "16 \<le> length (TBX @ replicate 12 0 @ DDS) \<and> take 4 (TBX @ replicate 12 0 @ DDS) = TBX \<and>
      occurs DDS (TBX @ replicate 12 0 @ DDS) 16"
    by (simp add: TBX_def DDS_def occurs_def)
  have size: "unpack_u32 (take 4 (drop 8 (TBX @ replicate 12 0 @ DDS))) = 0"
    by code_simp
  show ?thesis
    using parse_xbt_header_failure_modes [of "TBX @ DDS"] 1
      parse_xbt_header_failure_modes [of "replicate 16 0"] 2
      parse_xbt_header_failure_modes [of "TBX @ replicate 12 0"] 3
      parse_xbt_header_failure_modes [of "TBX @ replicate 12 0 @ DDS" 16] 4 size
    by metis
qed

section \<open>Writing and reading the sidecar\<close>

lemma save_header_to_xml_Some:
  "save_header_to_xml disk h xml_path = Some disk' \<Longrightarrow>
     disk' = disk(xml_path \<mapsto> XmlDoc (header_xml h))"
  by (simp add: save_header_to_xml_def Let_def split: if_splits)

lemma save_header_to_xml_ok:
  "xml_ok (header_xml h) \<Longrightarrow>
     save_header_to_xml disk h xml_path = Some (disk(xml_path \<mapsto> XmlDoc (header_xml h)))"
  by (simp add: save_header_to_xml_def)

lemma load_saved_header:
  assumes "disk xml_path = Some (XmlDoc (header_xml h))" and "h \<noteq> []"
  shows "load_header_from_xml disk xml_path = Some h"
  using assms by (simp add: load_header_from_xml_def load_header_result_def read_header_header_xml)

lemma saved_header_loads:
  assumes "save_header_to_xml disk h xml_path = Some disk'" and "h \<noteq> []"
  shows "load_header_from_xml disk' xml_path = Some h"
proof -
  from save_header_to_xml_Some [OF assms(1)]
  have "disk' xml_path = Some (XmlDoc (header_xml h))" by simp
  with assms(2) show ?thesis by (intro load_saved_header)
qed

lemma bad_path_header: "embedded_path (TBX @ replicate 24 0 @ [1, 0, 0, 0]) = Some [CHR 0x01]"
  by code_simp

text \<open>
  Claim C2, at an input where the code fails it. A 32-byte header whose bytes from offset
  28 are \<open>01 00 00 00\<close>: the writer takes the byte \<open>01\<close> for an embedded path, puts it in the
  \<open>EmbeddedPath\<close> element, and the reparse of the serialised document refuses the control
  character. \<open>save_header_to_xml\<close> returns \<open>False\<close> and no document is written, so nothing can
  be read back.
\<close>

theorem save_header_to_xml_control_char:
  "save_header_to_xml disk (TBX @ replicate 24 0 @ [1, 0, 0, 0]) xml_path = None"
proof -
  have "\<not> xml_ok (header_xml (TBX @ replicate 24 0 @ [1, 0, 0, 0]))"
    by (simp add: xml_ok_header_xml bad_path_header xml_char_def)
  then show ?thesis by (simp add: save_header_to_xml_def)
qed

lemma control_char_header_not_ok:
  "\<not> xml_ok (header_xml (TBX @ replicate 24 0 @ [1, 0, 0, 0]))"
  by (simp add: xml_ok_header_xml bad_path_header xml_char_def)

lemma xbt_to_dds_save_fails:
  assumes "disk input_path = Some (Binary X)"
    and "parse_xbt_header X = Inr (hs, k, h)"
    and "\<not> xml_ok (header_xml h)"
  shows "xbt_to_dds disk input_path output_path = Inl SaveXmlFailed"
  using assms by (simp add: xbt_to_dds_def xbt_to_dds_batch_def save_header_to_xml_def)

text \<open>
  Claim C3, at an input where the code fails it. A 32-byte header that starts with the
  wrapper magic and does not contain the payload magic, followed by a payload that starts
  with it: \<open>parse_xbt_header\<close> finds the boundary at 32, but the header is the one of claim
  C2, \<open>save_header_to_xml\<close> returns \<open>False\<close> on it, and the split raises and returns \<open>False\<close>:
  no header bytes come out of it, of length 32 or any other.
\<close>

theorem xbt_to_dds_control_char:
  "length (TBX @ replicate 24 0 @ [1, 0, 0, 0] :: bytes) = 32 \<and>
   take 4 (TBX @ replicate 24 0 @ [1, 0, 0, 0]) = TBX \<and>
   bytes_find (TBX @ replicate 24 0 @ [1, 0, 0, 0]) DDS = None \<and>
   prefix DDS (DDS @ [7]) \<and>
   parse_xbt_header ((TBX @ replicate 24 0 @ [1, 0, 0, 0]) @ DDS @ [7]) =
     Inr (0, 32, TBX @ replicate 24 0 @ [1, 0, 0, 0]) \<and>
   xbt_to_dds [''a.xbt'' \<mapsto> Binary ((TBX @ replicate 24 0 @ [1, 0, 0, 0]) @ DDS @ [7])]
     ''a.xbt'' ''a.dds'' = Inl SaveXmlFailed"
proof -
  have 1: "length (TBX @ replicate 24 0 @ [1, 0, 0, 0] :: bytes) = 32" by code_simp
  have 2: "take 4 (TBX @ replicate 24 0 @ [1, 0, 0, 0]) = TBX" by code_simp
  have 3: "bytes_find (TBX @ replicate 24 0 @ [1, 0, 0, 0]) DDS = None" by code_simp
  have 4: "prefix DDS (DDS @ [7])" by simp
  have 5: "parse_xbt_header ((TBX @ replicate 24 0 @ [1, 0, 0, 0]) @ DDS @ [7]) =
      Inr (0, 32, TBX @ replicate 24 0 @ [1, 0, 0, 0])"
    by code_simp
  have 6: "xbt_to_dds [''a.xbt'' \<mapsto> Binary ((TBX @ replicate 24 0 @ [1, 0, 0, 0]) @ DDS @ [7])]
      ''a.xbt'' ''a.dds'' = Inl SaveXmlFailed"
    by (rule xbt_to_dds_save_fails [OF _ 5 control_char_header_not_ok]) simp
  from 1 2 3 4 5 6 show ?thesis by blast
qed





lemma dds_to_xbt_fails_without_header:
  assumes "load_header_from_xml disk (sidecar_path input_path) = None"
  shows "\<exists>e. dds_to_xbt fix disk input_path output_path = Inl e"
  using assms by (auto simp: dds_to_xbt_def Let_def split: option.splits file_data.splits)

text \<open>
  Claim C10. A document whose root element is not named \<open>XBTHeader\<close> is rejected whatever
  it contains, and with it as the sidecar the join fails.
\<close>

theorem non_header_root_rejected:
  assumes "elem_tag root \<noteq> ''XBTHeader''"
  shows "read_header root = Inl InvalidFormat \<and>
         (disk (sidecar_path input_path) = Some (XmlDoc root) \<longrightarrow>
            load_header_from_xml disk (sidecar_path input_path) = None \<and>
            (\<exists>e. dds_to_xbt fix disk input_path output_path = Inl e))"
proof (intro conjI impI)
  show r: "read_header root = Inl InvalidFormat"
    using assms by (simp add: read_header_def)
  assume d: "disk (sidecar_path input_path) = Some (XmlDoc root)"
  with r show l: "load_header_from_xml disk (sidecar_path input_path) = None"
    by (simp add: load_header_from_xml_def load_header_result_def)
  then show "\<exists>e. dds_to_xbt fix disk input_path output_path = Inl e"
    by (rule dds_to_xbt_fails_without_header)
qed

text \<open>
  A root named \<open>Header\<close> with a well-formed raw-header field.
\<close>

theorem non_header_root_rejected_witness:
  "read_header (Element ''Header'' None [Element ''RawHeaderData'' (Some ''abcd'') []]) = Inl InvalidFormat \<and>
   load_header_from_xml
     [''a.dds'' \<mapsto> Binary (DDS @ [0]),
      ''a.xml'' \<mapsto> XmlDoc (Element ''Header'' None [Element ''RawHeaderData'' (Some ''abcd'') []])]
     ''a.xml'' = None \<and>
   (\<exists>e. dds_to_xbt None
     [''a.dds'' \<mapsto> Binary (DDS @ [0]),
      ''a.xml'' \<mapsto> XmlDoc (Element ''Header'' None [Element ''RawHeaderData'' (Some ''abcd'') []])]
     ''a.dds'' ''a.xbt'' = Inl e)"
proof -
  have p: "sidecar_path ''a.dds'' = ''a.xml''" by code_simp
  have t: "elem_tag (Element ''Header'' None [Element ''RawHeaderData'' (Some ''abcd'') []]) \<noteq> ''XBTHeader''"
    by simp
  show ?thesis
    using non_header_root_rejected [OF t,
        of "[''a.dds'' \<mapsto> Binary (DDS @ [0]),
            ''a.xml'' \<mapsto> XmlDoc (Element ''Header'' None [Element ''RawHeaderData'' (Some ''abcd'') []])]"
           "''a.dds''" None "''a.xbt''"]
    by (simp add: p)
qed




section \<open>Join and round trip\<close>

text \<open>
  Claim C4, as the code has it. The join fails on the payload signature for any payload
  that does not start with the payload magic. For a payload that does, and a sidecar whose
  raw header decodes to at least one byte, it writes exactly the header bytes followed by
  the payload bytes. A sidecar that cannot be read, or that decodes to no bytes at all,
  makes the join fail. With format fixing off the payload is the input file's bytes.
\<close>

theorem dds_to_xbt_concatenates:
  assumes "disk input_path = Some (Binary d)"
  shows
    "(\<not> prefix DDS (dds_input fixing d) \<longrightarrow>
        dds_to_xbt fixing disk input_path output_path = Inl InvalidPayloadSignature) \<and>
     (prefix DDS (dds_input fixing d) \<and>
      load_header_from_xml disk (sidecar_path input_path) = Some h \<and> h \<noteq> [] \<longrightarrow>
        dds_to_xbt fixing disk input_path output_path =
          Inr (disk(output_path \<mapsto> Binary (h @ dds_input fixing d)))) \<and>
     (prefix DDS (dds_input fixing d) \<and>
      (load_header_from_xml disk (sidecar_path input_path) = None \<or>
       load_header_from_xml disk (sidecar_path input_path) = Some []) \<longrightarrow>
        dds_to_xbt fixing disk input_path output_path = Inl LoadHeaderFailed) \<and>
     dds_input None d = d"
  using assms by (auto simp: dds_to_xbt_def dds_input_def Let_def)

lemma parse_xbt_header_succeeds:
  assumes "16 \<le> length data" and "take 4 data = TBX" and "occurs DDS data i"
  obtains k where "bytes_find data DDS = Some k"
    and "parse_xbt_header data = Inr (unpack_u32 (take 4 (drop 8 data)), k, take k data)"
proof -
  from assms(3) obtain k where k: "bytes_find data DDS = Some k"
    using bytes_find_None by (cases "bytes_find data DDS") blast+
  with assms(1,2)
  have "parse_xbt_header data = Inr (unpack_u32 (take 4 (drop 8 data)), k, take k data)"
    by (simp add: parse_xbt_header_def)
  with k that show thesis by blast
qed

text \<open>
  A payload of three bytes without the magic, and a payload with it beside a sidecar that
  holds the four bytes of the wrapper magic.
\<close>

theorem dds_to_xbt_concatenates_witness:
  "dds_to_xbt None [''b.dds'' \<mapsto> Binary [1, 2, 3]] ''b.dds'' ''b.xbt'' = Inl InvalidPayloadSignature \<and>
   dds_to_xbt None
     [''a.dds'' \<mapsto> Binary (DDS @ [1, 2]),
      ''a.xml'' \<mapsto> XmlDoc (Element ''XBTHeader'' None [Element ''RawHeaderData'' (Some ''54425800'') []])]
     ''a.dds'' ''a.xbt'' =
   Inr ([''a.dds'' \<mapsto> Binary (DDS @ [1, 2]),
         ''a.xml'' \<mapsto> XmlDoc (Element ''XBTHeader'' None [Element ''RawHeaderData'' (Some ''54425800'') []]),
         ''a.xbt'' \<mapsto> Binary (TBX @ DDS @ [1, 2])])"
proof -
  let ?doc = "Element ''XBTHeader'' None [Element ''RawHeaderData'' (Some ''54425800'') []]"
  let ?disk = "[''a.dds'' \<mapsto> Binary (DDS @ [1, 2]), ''a.xml'' \<mapsto> XmlDoc ?doc]"
  have p: "sidecar_path ''a.dds'' = ''a.xml''" by code_simp
  have r: "read_header ?doc = Inr TBX" by code_simp
  have l: "load_header_from_xml ?disk (sidecar_path ''a.dds'') = Some TBX"
    by (simp add: p load_header_from_xml_def load_header_result_def r)
  have n: "\<not> prefix DDS (dds_input None [1, 2, 3])" by (simp add: dds_input_def DDS_def)
  have y: "prefix DDS (dds_input None (DDS @ [1, 2]))" by (simp add: dds_input_def)
  have t: "TBX \<noteq> []" by (simp add: TBX_def)
  have b: "[''b.dds'' \<mapsto> Binary [1, 2, 3]] ''b.dds'' = Some (Binary [1, 2, 3])" by simp
  have a: "?disk ''a.dds'' = Some (Binary (DDS @ [1, 2]))" by simp
  from dds_to_xbt_concatenates
    [where disk = "[''b.dds'' \<mapsto> Binary [1, 2, 3]]" and input_path = "''b.dds''"
       and fixing = None and output_path = "''b.xbt''"] b n
  have 1: "dds_to_xbt None [''b.dds'' \<mapsto> Binary [1, 2, 3]] ''b.dds'' ''b.xbt'' = Inl InvalidPayloadSignature"
    by blast
  from dds_to_xbt_concatenates
    [where disk = ?disk and input_path = "''a.dds''" and fixing = None and h = TBX
       and output_path = "''a.xbt''"] a y l t
  have 2: "dds_to_xbt None ?disk ''a.dds'' ''a.xbt'' =
      Inr (?disk(''a.xbt'' \<mapsto> Binary (TBX @ dds_input None (DDS @ [1, 2]))))"
    by blast
  from 1 2 show ?thesis by (simp add: dds_input_def)
qed

text \<open>
  A sidecar whose raw-header field is one space: the read returns zero bytes, and the join
  of a payload that starts with the magic fails.
\<close>

theorem dds_to_xbt_concatenates_counterexample:
  "prefix DDS (DDS @ [1, 2]) \<and>
   load_header_from_xml
     [''a.dds'' \<mapsto> Binary (DDS @ [1, 2]),
      ''a.xml'' \<mapsto> XmlDoc (Element ''XBTHeader'' None [Element ''RawHeaderData'' (Some '' '') []])]
     ''a.xml'' = Some [] \<and>
   dds_to_xbt None
     [''a.dds'' \<mapsto> Binary (DDS @ [1, 2]),
      ''a.xml'' \<mapsto> XmlDoc (Element ''XBTHeader'' None [Element ''RawHeaderData'' (Some '' '') []])]
     ''a.dds'' ''a.xbt'' = Inl LoadHeaderFailed"
proof -
  let ?doc = "Element ''XBTHeader'' None [Element ''RawHeaderData'' (Some '' '') []]"
  have p: "sidecar_path ''a.dds'' = ''a.xml''" by code_simp
  have r: "read_header ?doc = Inr []" by code_simp
  show ?thesis
    by (simp add: dds_to_xbt_def dds_input_def p load_header_from_xml_def load_header_result_def r)
qed

text \<open>
  Claim C1, as the code has it. For a container of at least 16 bytes that starts with the
  wrapper magic and contains the payload magic, and whose embedded path, if the sidecar
  writer finds one, is made of characters XML can carry: the split succeeds, its payload
  starts with the payload magic, and the join of that payload with that sidecar, format
  fixing off, writes the container back byte for byte. The sidecar must not be the payload
  file itself.
\<close>

theorem xbt_dds_roundtrip:
  assumes input: "disk input_path = Some (Binary X)"
    and len: "16 \<le> length X" and magic: "take 4 X = TBX" and payload: "occurs DDS X i"
    and text_ok: "\<forall>hs k h p. parse_xbt_header X = Inr (hs, k, h) \<longrightarrow>
                   embedded_path h = Some p \<longrightarrow> list_all xml_char p"
    and apart: "sidecar_path output_path \<noteq> output_path"
  shows "\<exists>disk1 disk2 payload.
           xbt_to_dds disk input_path output_path = Inr disk1 \<and>
           disk1 output_path = Some (Binary payload) \<and> prefix DDS payload \<and>
           dds_to_xbt None disk1 output_path rebuilt_path = Inr disk2 \<and>
           disk2 rebuilt_path = Some (Binary X)"
proof -
  from parse_xbt_header_succeeds [OF len magic payload]
  obtain k where k: "bytes_find X DDS = Some k"
    and parse: "parse_xbt_header X = Inr (unpack_u32 (take 4 (drop 8 X)), k, take k X)"
    by blast
  let ?h = "take k X"
  let ?xml = "sidecar_path output_path"
  let ?disk1 = "disk(?xml \<mapsto> XmlDoc (header_xml ?h), output_path \<mapsto> Binary (drop k X))"
  from bytes_find_Some [OF k] have at: "occurs DDS X k" by simp
  from TBX_not_DDS_at [OF magic at] len have h_ne: "?h \<noteq> []" by auto
  from text_ok parse have "xml_ok (header_xml ?h)"
    by (auto simp: xml_ok_header_xml split: option.split)
  then have save: "save_header_to_xml disk ?h ?xml = Some (disk(?xml \<mapsto> XmlDoc (header_xml ?h)))"
    by (rule save_header_to_xml_ok)
  from input parse save have split: "xbt_to_dds disk input_path output_path = Inr ?disk1"
    by (simp add: xbt_to_dds_def xbt_to_dds_batch_def)
  have out: "?disk1 output_path = Some (Binary (drop k X))" by simp
  from at have pre: "prefix DDS (drop k X)" by (simp add: occurs_def)
  from apart have "?disk1 ?xml = Some (XmlDoc (header_xml ?h))" by simp
  with h_ne have load: "load_header_from_xml ?disk1 ?xml = Some ?h"
    by (intro load_saved_header)
  from out pre load h_ne
  have join: "dds_to_xbt None ?disk1 output_path rebuilt_path =
      Inr (?disk1(rebuilt_path \<mapsto> Binary (?h @ drop k X)))"
    by (simp add: dds_to_xbt_def dds_input_def)
  have "(?disk1(rebuilt_path \<mapsto> Binary (?h @ drop k X))) rebuilt_path = Some (Binary X)"
    by simp
  with split out pre join show ?thesis by blast
qed

text \<open>
  The eight bytes of the two magics: a container in the claim's sense, and the split fails.
\<close>

theorem xbt_dds_roundtrip_counterexample:
  "take 4 (TBX @ DDS) = TBX \<and> occurs DDS (TBX @ DDS) 4 \<and>
   xbt_to_dds [''a.xbt'' \<mapsto> Binary (TBX @ DDS)] ''a.xbt'' ''a.dds'' = Inl (ParseFailed FileTooSmall)"
proof -
  have "parse_xbt_header (TBX @ DDS) = Inl FileTooSmall" by code_simp
  then show ?thesis
    by (simp add: xbt_to_dds_def xbt_to_dds_batch_def occurs_def TBX_def)
qed

text \<open>
  A 32-byte header with the path \<open>ab\<close> at offset 28, and a six-byte payload.
\<close>

theorem xbt_dds_roundtrip_witness:
  "\<exists>disk1 disk2 payload.
     xbt_to_dds [''photo.xbt'' \<mapsto> Binary (TBX @ replicate 24 0 @ [0x61, 0x62, 0, 0] @ DDS @ [1, 2])]
       ''photo.xbt'' ''photo.dds'' = Inr disk1 \<and>
     disk1 ''photo.dds'' = Some (Binary payload) \<and> prefix DDS payload \<and>
     dds_to_xbt None disk1 ''photo.dds'' ''rebuilt.xbt'' = Inr disk2 \<and>
     disk2 ''rebuilt.xbt'' = Some (Binary (TBX @ replicate 24 0 @ [0x61, 0x62, 0, 0] @ DDS @ [1, 2]))"
proof -
  let ?X = "TBX @ replicate 24 0 @ [0x61, 0x62, 0, 0] @ DDS @ [1, 2] :: bytes"
  let ?disk = "[''photo.xbt'' \<mapsto> Binary ?X]"
  have input: "?disk ''photo.xbt'' = Some (Binary ?X)" by simp
  have len: "16 \<le> length ?X" by code_simp
  have magic: "take 4 ?X = TBX" by code_simp
  have payload: "occurs DDS ?X 32" by code_simp
  have parse: "parse_xbt_header ?X = Inr (0, 32, TBX @ replicate 24 0 @ [0x61, 0x62, 0, 0])"
    by code_simp
  have path: "embedded_path (TBX @ replicate 24 0 @ [0x61, 0x62, 0, 0]) = Some ''ab''"
    by code_simp
  have text_ok: "\<forall>hs k h p. parse_xbt_header ?X = Inr (hs, k, h) \<longrightarrow>
      embedded_path h = Some p \<longrightarrow> list_all xml_char p"
    using parse path by (auto simp: xml_char_def)
  have apart: "sidecar_path ''photo.dds'' \<noteq> ''photo.dds''" by code_simp
  from xbt_dds_roundtrip
    [where disk = ?disk and input_path = "''photo.xbt''" and X = ?X and i = 32
       and output_path = "''photo.dds''" and rebuilt_path = "''rebuilt.xbt''",
     OF input len magic payload text_ok apart]
  show ?thesis .
qed

section \<open>Staging\<close>

lemma basename_no_slash: "CHR ''/'' \<notin> set (basename p)"
proof -
  have "CHR ''/'' \<notin> set (takeWhile (\<lambda>c. c \<noteq> CHR ''/'') (rev p))"
    by (auto dest: set_takeWhileD)
  then show ?thesis by (simp add: basename_def)
qed

lemma os_path_join_basename:
  "os_path_join d (basename p) =
     (if d = [] \<or> last d = CHR ''/'' then d else d @ ''/'') @ basename p"
proof (cases "basename p")
  case Nil
  then show ?thesis by (simp add: os_path_join_def)
next
  case (Cons c cs)
  with basename_no_slash [of p] have "c \<noteq> CHR ''/''" by auto
  with Cons show ?thesis by (simp add: os_path_join_def)
qed

lemma os_path_join_basename_inj:
  "os_path_join d (basename p) = os_path_join d (basename q) \<longleftrightarrow> basename p = basename q"
  by (simp add: os_path_join_basename)

lemma stage_files_snoc:
  "stage_files ow ed disk (xs @ [x]) = stage_file ow ed (stage_files ow ed disk xs) x"
  by (simp add: stage_files_def)

lemma stage_file_elsewhere:
  "p \<noteq> os_path_join ed (basename x) \<Longrightarrow> stage_file ow ed disk x p = disk p"
  by (auto simp: stage_file_def copy2_def Let_def split: option.splits)

lemma stage_files_elsewhere:
  "\<forall>x \<in> set xs. p \<noteq> os_path_join ed (basename x) \<Longrightarrow> stage_files ow ed disk xs p = disk p"
proof (induction xs rule: rev_induct)
  case Nil
  show ?case by (simp add: stage_files_def)
next
  case (snoc x xs)
  then show ?case by (simp add: stage_files_snoc stage_file_elsewhere)
qed

lemma stage_file_here:
  assumes "disk x = Some content" and "x \<noteq> os_path_join ed (basename x)"
  shows "stage_file ow ed disk x (os_path_join ed (basename x)) =
     (if disk (os_path_join ed (basename x)) = None \<or> ow then Some content
      else disk (os_path_join ed (basename x)))"
  using assms by (simp add: stage_file_def copy2_def Let_def)

lemma stage_files_dest:
  assumes "\<forall>x \<in> set xs. disk x \<noteq> None"
    and "\<forall>x \<in> set xs. \<forall>y \<in> set xs. x \<noteq> os_path_join ed (basename y)"
  shows "stage_files ow ed disk xs (os_path_join ed (basename f)) =
     (if filter (\<lambda>g. basename g = basename f) xs = [] then disk (os_path_join ed (basename f))
      else if ow then disk (last (filter (\<lambda>g. basename g = basename f) xs))
      else if disk (os_path_join ed (basename f)) = None
           then disk (hd (filter (\<lambda>g. basename g = basename f) xs))
           else disk (os_path_join ed (basename f)))"
  using assms
proof (induction xs rule: rev_induct)
  case Nil
  show ?case by (simp add: stage_files_def)
next
  case (snoc x xs)
  let ?D = "stage_files ow ed disk xs"
  let ?dest = "os_path_join ed (basename f)"
  let ?same = "filter (\<lambda>g. basename g = basename f) xs"
  from snoc.prems have ex: "\<forall>x \<in> set xs. disk x \<noteq> None"
    and ap: "\<forall>x \<in> set xs. \<forall>y \<in> set xs. x \<noteq> os_path_join ed (basename y)"
    by auto
  note IH = snoc.IH [OF ex ap]
  from snoc.prems obtain content where content: "disk x = Some content" by auto
  from snoc.prems have "\<forall>y \<in> set xs. x \<noteq> os_path_join ed (basename y)" by auto
  then have Dx: "?D x = Some content"
    using content by (simp add: stage_files_elsewhere)
  from snoc.prems have xd: "x \<noteq> os_path_join ed (basename x)" by auto
  show ?case
  proof (cases "basename x = basename f")
    case False
    then have "?dest \<noteq> os_path_join ed (basename x)"
      by (simp add: os_path_join_basename_inj)
    then have "stage_files ow ed disk (xs @ [x]) ?dest = ?D ?dest"
      by (simp add: stage_files_snoc stage_file_elsewhere)
    with IH False show ?thesis by simp
  next
    case True
    have same_in: "?same \<noteq> [] \<Longrightarrow> disk (hd ?same) \<noteq> None"
    proof -
      assume "?same \<noteq> []"
      then have "hd ?same \<in> set ?same" by (rule hd_in_set)
      moreover have "set ?same \<subseteq> set xs" by (rule filter_is_subset)
      ultimately have "hd ?same \<in> set xs" by (rule subsetD [rotated])
      with ex show ?thesis by blast
    qed
    have eq: "os_path_join ed (basename x) = ?dest" using True by simp
    have step: "stage_file ow ed ?D x ?dest =
        (if ?D ?dest = None \<or> ow then Some content else ?D ?dest)"
      using stage_file_here [where disk = ?D and x = x and ed = ed and ow = ow, OF Dx xd]
      unfolding eq .
    have same': "filter (\<lambda>g. basename g = basename f) (xs @ [x]) = ?same @ [x]"
      using True by simp
    show ?thesis
    proof (cases "?same = []")
      case True
      with IH have "?D ?dest = disk ?dest" by simp
      with step True content show ?thesis
        unfolding same' stage_files_snoc by auto
    next
      case False
      from same_in [OF False] obtain c where c: "disk (hd ?same) = Some c" by auto
      from False IH have D: "?D ?dest =
          (if ow then disk (last ?same)
           else if disk ?dest = None then disk (hd ?same) else disk ?dest)"
        by simp
      from False have hd: "hd (?same @ [x]) = hd ?same" by simp
      show ?thesis
        unfolding same' stage_files_snoc step hd D using c content by auto
    qed
  qed
qed

text \<open>
  Claim C9, as the code has it. The sources exist and none of them lies at a staging
  destination. When several of them share the basename of \<open>f\<close>: with overwrite enabled the
  staged file holds the bytes of the last of them; with overwrite disabled a destination
  that exists is never written, so the staged file holds the bytes of the first of them, or
  the bytes it had before the run when it was already there.
\<close>

theorem staging_collision:
  assumes "\<forall>x \<in> set xbt_files. disk x \<noteq> None"
    and "\<forall>x \<in> set xbt_files. \<forall>y \<in> set xbt_files. x \<noteq> os_path_join extract_dir (basename y)"
    and "f \<in> set xbt_files"
  shows
    "(overwrite \<longrightarrow>
        stage_files overwrite extract_dir disk xbt_files (os_path_join extract_dir (basename f)) =
          disk (last (filter (\<lambda>g. basename g = basename f) xbt_files))) \<and>
     (\<not> overwrite \<and> disk (os_path_join extract_dir (basename f)) = None \<longrightarrow>
        stage_files overwrite extract_dir disk xbt_files (os_path_join extract_dir (basename f)) =
          disk (hd (filter (\<lambda>g. basename g = basename f) xbt_files))) \<and>
     (\<not> overwrite \<and> disk (os_path_join extract_dir (basename f)) \<noteq> None \<longrightarrow>
        stage_files overwrite extract_dir disk xbt_files (os_path_join extract_dir (basename f)) =
          disk (os_path_join extract_dir (basename f)))"
proof -
  from assms(3) have "f \<in> set (filter (\<lambda>g. basename g = basename f) xbt_files)" by simp
  then have "filter (\<lambda>g. basename g = basename f) xbt_files \<noteq> []"
    by (auto simp: filter_empty_conv)
  with stage_files_dest [OF assms(1,2), of overwrite f] show ?thesis by auto
qed

lemma two_sources:
  "basename ''a/x.xbt'' = ''x.xbt''" "basename ''b/x.xbt'' = ''x.xbt''"
  "os_path_join ''staged'' ''x.xbt'' = ''staged/x.xbt''"
  by code_simp+

text \<open>
  Two sources named \<open>x.xbt\<close> in two directories: overwrite on, overwrite off into an empty
  staging directory, and overwrite off with \<open>x.xbt\<close> already staged.
\<close>

theorem staging_collision_witness:
  "stage_files True ''staged'' [''a/x.xbt'' \<mapsto> Binary [1], ''b/x.xbt'' \<mapsto> Binary [2]]
     [''a/x.xbt'', ''b/x.xbt''] ''staged/x.xbt'' = Some (Binary [2]) \<and>
   stage_files False ''staged'' [''a/x.xbt'' \<mapsto> Binary [1], ''b/x.xbt'' \<mapsto> Binary [2]]
     [''a/x.xbt'', ''b/x.xbt''] ''staged/x.xbt'' = Some (Binary [1]) \<and>
   stage_files False ''staged''
     [''a/x.xbt'' \<mapsto> Binary [1], ''b/x.xbt'' \<mapsto> Binary [2], ''staged/x.xbt'' \<mapsto> Binary [3]]
     [''a/x.xbt'', ''b/x.xbt''] ''staged/x.xbt'' = Some (Binary [3])"
proof -
  let ?xs = "[''a/x.xbt'', ''b/x.xbt'']"
  let ?d1 = "[''a/x.xbt'' \<mapsto> Binary [1], ''b/x.xbt'' \<mapsto> Binary [2]]"
  let ?d2 = "[''a/x.xbt'' \<mapsto> Binary [1], ''b/x.xbt'' \<mapsto> Binary [2], ''staged/x.xbt'' \<mapsto> Binary [3]]"
  have e1: "\<forall>x \<in> set ?xs. ?d1 x \<noteq> None" by simp
  have e2: "\<forall>x \<in> set ?xs. ?d2 x \<noteq> None" by simp
  have ap: "\<forall>x \<in> set ?xs. \<forall>y \<in> set ?xs. x \<noteq> os_path_join ''staged'' (basename y)"
    by (simp add: two_sources)
  have f: "''b/x.xbt'' \<in> set ?xs" by simp
  have same: "filter (\<lambda>g. basename g = ''x.xbt'') ?xs = ?xs"
    by (simp add: two_sources)
  have v1: "?d1 ''a/x.xbt'' = Some (Binary [1])" "?d1 ''b/x.xbt'' = Some (Binary [2])"
    "?d1 ''staged/x.xbt'' = None"
    by simp_all
  have v2: "?d2 ''staged/x.xbt'' = Some (Binary [3])" by simp
  have last: "last ?xs = ''b/x.xbt''" and hd: "hd ?xs = ''a/x.xbt''" by simp_all
  from staging_collision [OF e1 ap f, of True]
  have "stage_files True ''staged'' ?d1 ?xs (os_path_join ''staged'' (basename ''b/x.xbt'')) =
      ?d1 (last (filter (\<lambda>g. basename g = basename ''b/x.xbt'') ?xs))"
    by blast
  then have 1: "stage_files True ''staged'' ?d1 ?xs ''staged/x.xbt'' = Some (Binary [2])"
    unfolding two_sources same last v1 .
  from staging_collision [OF e1 ap f, of False] v1(3)
  have "stage_files False ''staged'' ?d1 ?xs (os_path_join ''staged'' (basename ''b/x.xbt'')) =
      ?d1 (hd (filter (\<lambda>g. basename g = basename ''b/x.xbt'') ?xs))"
    unfolding two_sources by blast
  then have 2: "stage_files False ''staged'' ?d1 ?xs ''staged/x.xbt'' = Some (Binary [1])"
    unfolding two_sources same hd v1 .
  from staging_collision [OF e2 ap f, of False] v2
  have "stage_files False ''staged'' ?d2 ?xs (os_path_join ''staged'' (basename ''b/x.xbt'')) =
      ?d2 (os_path_join ''staged'' (basename ''b/x.xbt''))"
    unfolding two_sources by blast
  then have 3: "stage_files False ''staged'' ?d2 ?xs ''staged/x.xbt'' = Some (Binary [3])"
    unfolding two_sources v2 .
  from 1 2 3 show ?thesis by blast
qed

text \<open>
  Overwrite off, as the check box starts: the second copy is skipped because the first made
  the destination, and the staged file holds the first source's bytes, not the last's.
\<close>

theorem staging_collision_counterexample:
  "basename ''a/x.xbt'' = basename ''b/x.xbt'' \<and>
   stage_files False ''staged'' [''a/x.xbt'' \<mapsto> Binary [1], ''b/x.xbt'' \<mapsto> Binary [2]]
     [''a/x.xbt'', ''b/x.xbt''] (os_path_join ''staged'' (basename ''b/x.xbt'')) = Some (Binary [1]) \<and>
   [''a/x.xbt'' \<mapsto> Binary [1], ''b/x.xbt'' \<mapsto> Binary [2]] ''b/x.xbt'' = Some (Binary [2])"
  by (simp add: two_sources stage_files_def stage_file_def copy2_def)

section \<open>The convert loop\<close>

lemma process_file_fields:
  "run_disk (process_file cfg cd st f) = snd (convert_one cfg cd (run_disk st) f)"
  "run_log (process_file cfg cd st f) = run_log st @ [(f, fst (convert_one cfg cd (run_disk st) f))]"
  "converted (process_file cfg cd st f) =
     converted st + (case fst (convert_one cfg cd (run_disk st) f) of Converted \<Rightarrow> 1 | _ \<Rightarrow> 0)"
  "skipped (process_file cfg cd st f) =
     skipped st + (case fst (convert_one cfg cd (run_disk st) f) of Skipped r \<Rightarrow> 1 | _ \<Rightarrow> 0)"
  "errors (process_file cfg cd st f) =
     errors st + (case fst (convert_one cfg cd (run_disk st) f) of Failed e \<Rightarrow> 1 | _ \<Rightarrow> 0)"
  by (auto simp: process_file_def split: prod.splits outcome.splits)

lemma process_file_one_counter:
  "(converted (process_file cfg cd st f) = converted st + 1 \<and>
    skipped (process_file cfg cd st f) = skipped st \<and>
    errors (process_file cfg cd st f) = errors st) \<or>
   (converted (process_file cfg cd st f) = converted st \<and>
    skipped (process_file cfg cd st f) = skipped st + 1 \<and>
    errors (process_file cfg cd st f) = errors st) \<or>
   (converted (process_file cfg cd st f) = converted st \<and>
    skipped (process_file cfg cd st f) = skipped st \<and>
    errors (process_file cfg cd st f) = errors st + 1)"
  by (cases "fst (convert_one cfg cd (run_disk st) f)") (simp_all add: process_file_fields)

lemma convert_files_Cons:
  "convert_files cfg cd st (f # fs) = convert_files cfg cd (process_file cfg cd st f) fs"
  by (simp add: convert_files_def)

lemma convert_files_append:
  "convert_files cfg cd st (xs @ ys) = convert_files cfg cd (convert_files cfg cd st xs) ys"
  by (simp add: convert_files_def)

lemma convert_files_total:
  "converted (convert_files cfg cd st fs) + skipped (convert_files cfg cd st fs) +
     errors (convert_files cfg cd st fs) =
   converted st + skipped st + errors st + length fs"
proof (induction fs arbitrary: st)
  case Nil
  show ?case by (simp add: convert_files_def)
next
  case (Cons f fs)
  from process_file_one_counter [of cfg cd st f]
  have "converted (process_file cfg cd st f) + skipped (process_file cfg cd st f) +
      errors (process_file cfg cd st f) = converted st + skipped st + errors st + 1"
    by auto
  with Cons.IH [of "process_file cfg cd st f"] show ?case
    by (simp add: convert_files_Cons)
qed

lemma convert_files_log:
  "map fst (run_log (convert_files cfg cd st fs)) = map fst (run_log st) @ fs"
proof (induction fs arbitrary: st)
  case Nil
  show ?case by (simp add: convert_files_def)
next
  case (Cons f fs)
  from Cons.IH [of "process_file cfg cd st f"] show ?case
    by (simp add: convert_files_Cons process_file_fields)
qed

lemma convert_one_keeps_disk:
  "fst (convert_one cfg cd disk f) \<noteq> Converted \<Longrightarrow> snd (convert_one cfg cd disk f) = disk"
  by (auto simp: convert_one_def Let_def split: option.splits prod.splits bool.splits sum.splits if_splits)

lemma process_file_frame:
  assumes "run_disk st = run_disk st'"
  shows "run_disk (process_file cfg cd st f) = run_disk (process_file cfg cd st' f)"
    and "converted (process_file cfg cd st f) + converted st' =
         converted (process_file cfg cd st' f) + converted st"
    and "skipped (process_file cfg cd st f) + skipped st' =
         skipped (process_file cfg cd st' f) + skipped st"
    and "errors (process_file cfg cd st f) + errors st' =
         errors (process_file cfg cd st' f) + errors st"
    and "\<exists>entry. run_log (process_file cfg cd st f) = run_log st @ [entry] \<and>
                 run_log (process_file cfg cd st' f) = run_log st' @ [entry]"
  using assms by (simp_all add: process_file_fields)

lemma convert_files_frame:
  "run_disk st = run_disk st' \<Longrightarrow>
     run_disk (convert_files cfg cd st fs) = run_disk (convert_files cfg cd st' fs) \<and>
     converted (convert_files cfg cd st fs) + converted st' =
       converted (convert_files cfg cd st' fs) + converted st \<and>
     skipped (convert_files cfg cd st fs) + skipped st' =
       skipped (convert_files cfg cd st' fs) + skipped st \<and>
     errors (convert_files cfg cd st fs) + errors st' =
       errors (convert_files cfg cd st' fs) + errors st \<and>
     (\<exists>entries. run_log (convert_files cfg cd st fs) = run_log st @ entries \<and>
                 run_log (convert_files cfg cd st' fs) = run_log st' @ entries)"
proof (induction fs arbitrary: st st')
  case Nil
  then show ?case by (simp add: convert_files_def)
next
  case (Cons f fs)
  let ?s = "process_file cfg cd st f" and ?s' = "process_file cfg cd st' f"
  note step = process_file_frame [OF Cons.prems, of cfg cd f]
  from step(5) obtain entry where entry: "run_log ?s = run_log st @ [entry]"
    "run_log ?s' = run_log st' @ [entry]" by blast
  from Cons.IH [OF step(1)] obtain entries where
    ih: "run_disk (convert_files cfg cd ?s fs) = run_disk (convert_files cfg cd ?s' fs)"
      "converted (convert_files cfg cd ?s fs) + converted ?s' =
         converted (convert_files cfg cd ?s' fs) + converted ?s"
      "skipped (convert_files cfg cd ?s fs) + skipped ?s' =
         skipped (convert_files cfg cd ?s' fs) + skipped ?s"
      "errors (convert_files cfg cd ?s fs) + errors ?s' =
         errors (convert_files cfg cd ?s' fs) + errors ?s"
      "run_log (convert_files cfg cd ?s fs) = run_log ?s @ entries"
      "run_log (convert_files cfg cd ?s' fs) = run_log ?s' @ entries"
    by blast
  have "run_log (convert_files cfg cd st (f # fs)) = run_log st @ (entry # entries)"
    "run_log (convert_files cfg cd st' (f # fs)) = run_log st' @ (entry # entries)"
    using ih(5,6) entry by (simp_all add: convert_files_Cons)
  moreover from ih(1-4) step(2-4)
  have "run_disk (convert_files cfg cd st (f # fs)) = run_disk (convert_files cfg cd st' (f # fs))"
    "converted (convert_files cfg cd st (f # fs)) + converted st' =
       converted (convert_files cfg cd st' (f # fs)) + converted st"
    "skipped (convert_files cfg cd st (f # fs)) + skipped st' =
       skipped (convert_files cfg cd st' (f # fs)) + skipped st"
    "errors (convert_files cfg cd st (f # fs)) + errors st' =
       errors (convert_files cfg cd st' (f # fs)) + errors st"
    by (simp_all add: convert_files_Cons)
  ultimately show ?case by blast
qed

lemma failure_changes_nothing_else:
  assumes "fst (convert_one cfg cd (run_disk st) f) = Failed e"
  shows "run_disk (convert_files cfg cd st (f # remaining)) =
           run_disk (convert_files cfg cd st remaining)"
    and "converted (convert_files cfg cd st (f # remaining)) =
           converted (convert_files cfg cd st remaining)"
    and "skipped (convert_files cfg cd st (f # remaining)) =
           skipped (convert_files cfg cd st remaining)"
    and "errors (convert_files cfg cd st (f # remaining)) =
           errors (convert_files cfg cd st remaining) + 1"
    and "\<exists>entries.
           run_log (convert_files cfg cd st (f # remaining)) =
             run_log st @ (f, Failed e) # entries \<and>
           run_log (convert_files cfg cd st remaining) = run_log st @ entries"
proof -
  let ?s = "process_file cfg cd st f"
  from assms have keep: "run_disk ?s = run_disk st"
    by (simp add: process_file_fields convert_one_keeps_disk)
  from assms have c: "converted ?s = converted st" "skipped ?s = skipped st"
    "errors ?s = errors st + 1" "run_log ?s = run_log st @ [(f, Failed e)]"
    by (simp_all add: process_file_fields)
  from convert_files_frame [OF keep, of cfg cd remaining] obtain entries where
    fr: "run_disk (convert_files cfg cd ?s remaining) = run_disk (convert_files cfg cd st remaining)"
      "converted (convert_files cfg cd ?s remaining) + converted st =
         converted (convert_files cfg cd st remaining) + converted ?s"
      "skipped (convert_files cfg cd ?s remaining) + skipped st =
         skipped (convert_files cfg cd st remaining) + skipped ?s"
      "errors (convert_files cfg cd ?s remaining) + errors st =
         errors (convert_files cfg cd st remaining) + errors ?s"
      "run_log (convert_files cfg cd ?s remaining) = run_log ?s @ entries"
      "run_log (convert_files cfg cd st remaining) = run_log st @ entries"
    by blast
  from fr(1) show "run_disk (convert_files cfg cd st (f # remaining)) =
           run_disk (convert_files cfg cd st remaining)"
    by (simp add: convert_files_Cons)
  from fr(2) c(1) show "converted (convert_files cfg cd st (f # remaining)) =
           converted (convert_files cfg cd st remaining)"
    by (simp add: convert_files_Cons)
  from fr(3) c(2) show "skipped (convert_files cfg cd st (f # remaining)) =
           skipped (convert_files cfg cd st remaining)"
    by (simp add: convert_files_Cons)
  from fr(4) c(3) show "errors (convert_files cfg cd st (f # remaining)) =
           errors (convert_files cfg cd st remaining) + 1"
    by (simp add: convert_files_Cons)
  from fr(5,6) c(4) show "\<exists>entries.
           run_log (convert_files cfg cd st (f # remaining)) =
             run_log st @ (f, Failed e) # entries \<and>
           run_log (convert_files cfg cd st remaining) = run_log st @ entries"
    by (simp add: convert_files_Cons)
qed

text \<open>
  Claim C8. One round of the convert loop books the outcome of the file's own conversion,
  on the disk as it is then and on nothing else: it adds one to exactly one of the three
  counters, the one of that outcome, and logs it. The loop reaches every file of the list,
  whatever happened to the files before it; after it the three counters have grown by the
  number of files and the log holds one entry for each file, in order. A file whose
  conversion fails costs one error and one log entry and changes nothing else: the files
  after it leave the same disk, the same conversions and skips and the same log entries as
  a run of the list without it.
\<close>

theorem every_file_counted_once:
  "run_disk (process_file cfg convert_dir st f) =
     snd (convert_one cfg convert_dir (run_disk st) f) \<and>
   run_log (process_file cfg convert_dir st f) =
     run_log st @ [(f, fst (convert_one cfg convert_dir (run_disk st) f))] \<and>
   converted (process_file cfg convert_dir st f) =
     converted st +
       (case fst (convert_one cfg convert_dir (run_disk st) f) of Converted \<Rightarrow> 1 | _ \<Rightarrow> 0) \<and>
   skipped (process_file cfg convert_dir st f) =
     skipped st +
       (case fst (convert_one cfg convert_dir (run_disk st) f) of Skipped r \<Rightarrow> 1 | _ \<Rightarrow> 0) \<and>
   errors (process_file cfg convert_dir st f) =
     errors st +
       (case fst (convert_one cfg convert_dir (run_disk st) f) of Failed e \<Rightarrow> 1 | _ \<Rightarrow> 0) \<and>
   ((converted (process_file cfg convert_dir st f) = converted st + 1 \<and>
     skipped (process_file cfg convert_dir st f) = skipped st \<and>
     errors (process_file cfg convert_dir st f) = errors st) \<or>
    (converted (process_file cfg convert_dir st f) = converted st \<and>
     skipped (process_file cfg convert_dir st f) = skipped st + 1 \<and>
     errors (process_file cfg convert_dir st f) = errors st) \<or>
    (converted (process_file cfg convert_dir st f) = converted st \<and>
     skipped (process_file cfg convert_dir st f) = skipped st \<and>
     errors (process_file cfg convert_dir st f) = errors st + 1)) \<and>
   convert_files cfg convert_dir st (processed @ f # remaining) =
     convert_files cfg convert_dir
       (process_file cfg convert_dir (convert_files cfg convert_dir st processed) f) remaining \<and>
   converted (convert_files cfg convert_dir st files_to_convert) +
     skipped (convert_files cfg convert_dir st files_to_convert) +
     errors (convert_files cfg convert_dir st files_to_convert) =
   converted st + skipped st + errors st + length files_to_convert \<and>
   map fst (run_log (convert_files cfg convert_dir st files_to_convert)) =
     map fst (run_log st) @ files_to_convert \<and>
   (fst (convert_one cfg convert_dir (run_disk st) f) = Failed e \<longrightarrow>
      run_disk (convert_files cfg convert_dir st (f # remaining)) =
        run_disk (convert_files cfg convert_dir st remaining) \<and>
      converted (convert_files cfg convert_dir st (f # remaining)) =
        converted (convert_files cfg convert_dir st remaining) \<and>
      skipped (convert_files cfg convert_dir st (f # remaining)) =
        skipped (convert_files cfg convert_dir st remaining) \<and>
      errors (convert_files cfg convert_dir st (f # remaining)) =
        errors (convert_files cfg convert_dir st remaining) + 1 \<and>
      (\<exists>entries.
         run_log (convert_files cfg convert_dir st (f # remaining)) =
           run_log st @ (f, Failed e) # entries \<and>
         run_log (convert_files cfg convert_dir st remaining) = run_log st @ entries))"
proof -
  have loop: "convert_files cfg convert_dir st (processed @ f # remaining) =
     convert_files cfg convert_dir
       (process_file cfg convert_dir (convert_files cfg convert_dir st processed) f) remaining"
    by (simp add: convert_files_append convert_files_Cons)
  show ?thesis
    using process_file_fields [of cfg convert_dir st f]
      process_file_one_counter [of cfg convert_dir st f] loop
      convert_files_total [of cfg convert_dir st files_to_convert]
      convert_files_log [of cfg convert_dir st files_to_convert]
      failure_changes_nothing_else [of cfg convert_dir st f e remaining]
    by (intro conjI impI) assumption+
qed

lemma convert_one_missing_sidecar:
  assumes "conversion_type cfg = Fixed DdsToXbt \<or>
           (conversion_type cfg = Auto \<and> detect_file_type disk f = Dds)"
    and "disk (sidecar_path f) = None"
  shows "convert_one cfg cd disk f =
     (Skipped (RequirementsNotMet
        (''Required XML header file not found: '' @ basename (sidecar_path f))), disk)"
  using assms
  by (auto simp: convert_one_def current_conversion_def check_conversion_requirements_def Let_def)

text \<open>
  Claim C7. In a batch run, when the loop reaches a file whose direction is the join (set
  so, or detected from the payload magic) and whose sidecar does not exist, the file is
  counted in \<open>skipped\<close>, with the reason \<open>check_conversion_requirements\<close> gives; the disk and
  the two other counters are as they were, the join was not called, and the run goes on
  with the remaining files.
\<close>

theorem missing_sidecar_skipped:
  assumes "st1 = convert_files cfg convert_dir st0 processed"
    and "conversion_type cfg = Fixed DdsToXbt \<or>
         (conversion_type cfg = Auto \<and> detect_file_type (run_disk st1) f = Dds)"
    and "run_disk st1 (sidecar_path f) = None"
  shows "convert_files cfg convert_dir st0 (processed @ f # remaining) =
         convert_files cfg convert_dir
           (st1\<lparr>skipped := skipped st1 + 1,
                run_log := run_log st1 @
                  [(f, Skipped (RequirementsNotMet
                     (''Required XML header file not found: '' @ basename (sidecar_path f))))]\<rparr>)
           remaining"
proof -
  from convert_one_missing_sidecar [OF assms(2,3)]
  have "process_file cfg convert_dir st1 f =
      st1\<lparr>skipped := skipped st1 + 1,
          run_log := run_log st1 @
            [(f, Skipped (RequirementsNotMet
               (''Required XML header file not found: '' @ basename (sidecar_path f))))]\<rparr>"
    by (simp add: process_file_def)
  with assms(1) show ?thesis
    by (simp add: convert_files_append convert_files_Cons)
qed

text \<open>
  One payload file without its sidecar, direction detected.
\<close>

theorem missing_sidecar_skipped_witness:
  "skipped (convert_files \<lparr>conversion_type = Auto, overwrite_existing = False, fix_dds_format = None\<rparr>
      ''out'' \<lparr>run_disk = [''in/b.dds'' \<mapsto> Binary (DDS @ [2])], converted = 0, skipped = 0, errors = 0,
               run_log = []\<rparr> [''in/b.dds'']) = 1 \<and>
   errors (convert_files \<lparr>conversion_type = Auto, overwrite_existing = False, fix_dds_format = None\<rparr>
      ''out'' \<lparr>run_disk = [''in/b.dds'' \<mapsto> Binary (DDS @ [2])], converted = 0, skipped = 0, errors = 0,
               run_log = []\<rparr> [''in/b.dds'']) = 0 \<and>
   run_log (convert_files \<lparr>conversion_type = Auto, overwrite_existing = False, fix_dds_format = None\<rparr>
      ''out'' \<lparr>run_disk = [''in/b.dds'' \<mapsto> Binary (DDS @ [2])], converted = 0, skipped = 0, errors = 0,
               run_log = []\<rparr> [''in/b.dds'']) =
     [(''in/b.dds'', Skipped (RequirementsNotMet ''Required XML header file not found: b.xml''))]"
proof -
  let ?cfg = "\<lparr>conversion_type = Auto, overwrite_existing = False, fix_dds_format = None\<rparr>"
  let ?st = "\<lparr>run_disk = [''in/b.dds'' \<mapsto> Binary (DDS @ [2])], converted = 0, skipped = 0,
              errors = 0, run_log = []\<rparr>"
  have p: "sidecar_path ''in/b.dds'' = ''in/b.xml''" by code_simp
  have b: "basename ''in/b.xml'' = ''b.xml''" by code_simp
  have 1: "?st = convert_files ?cfg ''out'' ?st []" by (simp add: convert_files_def)
  have 2: "conversion_type ?cfg = Fixed DdsToXbt \<or>
      (conversion_type ?cfg = Auto \<and> detect_file_type (run_disk ?st) ''in/b.dds'' = Dds)"
    by (simp add: detect_file_type_def DDS_def TBX_def)
  have 3: "run_disk ?st (sidecar_path ''in/b.dds'') = None" by (simp add: p)
  from missing_sidecar_skipped [OF 1 2 3, of "[]"]
  show ?thesis by (simp add: convert_files_def p b)
qed

text \<open>
  Three files, direction detected: first a container without a payload, which fails, then a
  payload without its sidecar, then a container that converts and whose payload is written.
\<close>

theorem every_file_counted_once_witness:
  "let cfg = \<lparr>conversion_type = Auto, overwrite_existing = False, fix_dds_format = None\<rparr>;
       st = \<lparr>run_disk = [''staged/a.xbt'' \<mapsto> Binary (TBX @ replicate 12 0 @ DDS @ [1]),
                          ''in/b.dds'' \<mapsto> Binary (DDS @ [2]),
                          ''staged/c.xbt'' \<mapsto> Binary (TBX @ replicate 12 0)],
              converted = 0, skipped = 0, errors = 0, run_log = []\<rparr>;
       remaining = [''in/b.dds'', ''staged/a.xbt''];
       files = ''staged/c.xbt'' # remaining;
       final = convert_files cfg ''out'' st files
   in fst (convert_one cfg ''out'' (run_disk st) ''staged/c.xbt'') = Failed (ParseFailed PayloadNotFound) \<and>
      converted final = 1 \<and> skipped final = 1 \<and> errors final = 1 \<and>
      run_disk final ''out/a.dds'' = Some (Binary (DDS @ [1])) \<and>
      converted final + skipped final + errors final = length files \<and>
      map fst (run_log final) = files \<and>
      run_disk final = run_disk (convert_files cfg ''out'' st remaining) \<and>
      converted final = converted (convert_files cfg ''out'' st remaining) \<and>
      skipped final = skipped (convert_files cfg ''out'' st remaining) \<and>
      errors final = errors (convert_files cfg ''out'' st remaining) + 1"
proof -
  let ?cfg = "\<lparr>conversion_type = Auto, overwrite_existing = False, fix_dds_format = None\<rparr>"
  let ?st = "\<lparr>run_disk = [''staged/a.xbt'' \<mapsto> Binary (TBX @ replicate 12 0 @ DDS @ [1]),
                          ''in/b.dds'' \<mapsto> Binary (DDS @ [2]),
                          ''staged/c.xbt'' \<mapsto> Binary (TBX @ replicate 12 0)],
              converted = 0, skipped = 0, errors = 0, run_log = []\<rparr>"
  let ?remaining = "[''in/b.dds'', ''staged/a.xbt'']"
  let ?files = "''staged/c.xbt'' # ?remaining"
  let ?final = "convert_files ?cfg ''out'' ?st ?files"
  have fails: "fst (convert_one ?cfg ''out'' (run_disk ?st) ''staged/c.xbt'') =
      Failed (ParseFailed PayloadNotFound)"
    by code_simp
  have c: "converted ?final = 1" by code_simp
  have s: "skipped ?final = 1" by code_simp
  have e: "errors ?final = 1" by code_simp
  have d: "run_disk ?final ''out/a.dds'' = Some (Binary (DDS @ [1]))" by code_simp
  note inst = every_file_counted_once
    [of ?cfg "''out''" ?st "''staged/c.xbt''" "[]" ?remaining ?files "ParseFailed PayloadNotFound"]
  from inst have "converted ?final + skipped ?final + errors ?final =
      converted ?st + skipped ?st + errors ?st + length ?files"
    and "map fst (run_log ?final) = map fst (run_log ?st) @ ?files"
    by blast+
  then have "converted ?final + skipped ?final + errors ?final = length ?files"
    and "map fst (run_log ?final) = ?files"
    by simp_all
  moreover from inst fails
  have "run_disk ?final = run_disk (convert_files ?cfg ''out'' ?st ?remaining)"
    and "converted ?final = converted (convert_files ?cfg ''out'' ?st ?remaining)"
    and "skipped ?final = skipped (convert_files ?cfg ''out'' ?st ?remaining)"
    and "errors ?final = errors (convert_files ?cfg ''out'' ?st ?remaining) + 1"
    by blast+
  ultimately show ?thesis
    using fails c s e d unfolding Let_def by blast
qed

end
